theory Spec2Isabelle
  imports Complex_Main
begin

section \<open>Numbers of the Python run time\<close>

text \<open>
  The engine computes with three kinds of numbers: Python integers (unbounded, \<open>int\<close>),
  \<open>decimal.Decimal\<close> values and, where two integers are divided with \<open>/\<close>, binary64
  floats. A finite Decimal and a finite float are both rational numbers, so both are
  modelled by their value in \<open>rat\<close>, and every arithmetic operation rounds its exact result
  to the precision of the format: 28 significant decimal digits for the default Decimal
  context, 53 significant bits for binary64, ties to even in both.

  Not modelled: the exponent range of either format (values of magnitude \<open>10^999999\<close> or
  \<open>2^1024\<close> and the subnormal ranges), except in the power operation, where an ordinary
  rate and a large tenure reach the Decimal limit; NaN and infinite inputs; the
  representation of a Decimal (its trailing zeros), which no operation below observes.
\<close>

subsection \<open>Rounding to a number of significant digits\<close>

definition round_half_even :: "rat \<Rightarrow> int" where
  "round_half_even x =
     (let f = \<lfloor>x\<rfloor>; d = x - of_int f
      in if d < 1 / 2 then f
         else if 1 / 2 < d then f + 1
         else if even f then f else f + 1)"

text \<open>The number of digits of a positive integer \<open>n\<close> in base \<open>b\<close>; 0 otherwise.\<close>

function digit_count :: "int \<Rightarrow> int \<Rightarrow> int" where
  "digit_count b n = (if 1 < b \<and> 0 < n then digit_count b (n div b) + 1 else 0)"
  by pat_completeness auto
termination
  by (relation "measure (\<lambda>(b, n). nat n)") (auto intro: int_div_less_self)

declare digit_count.simps [simp del]

text \<open>
  \<open>ilog b x\<close> is the exponent of the leading digit of \<open>x \<noteq> 0\<close> in base \<open>b\<close>, that is
  the integer \<open>k\<close> with \<open>b^k \<le> \<bar>x\<bar> < b^(k+1)\<close> (lemma \<open>ilog_bounds\<close>).
\<close>

definition ilog :: "int \<Rightarrow> rat \<Rightarrow> int" where
  "ilog b x =
     (if 1 \<le> \<bar>x\<bar> then digit_count b \<lfloor>\<bar>x\<bar>\<rfloor> - 1
      else - digit_count b (\<lceil>1 / \<bar>x\<bar>\<rceil> - 1))"

text \<open>
  \<open>round_sig b p x\<close>: the multiple of \<open>b^e\<close> nearest to \<open>x\<close>, ties to even, where
  \<open>e\<close> places the leading digit of \<open>x\<close> at position \<open>p\<close>.
\<close>

definition round_sig :: "int \<Rightarrow> int \<Rightarrow> rat \<Rightarrow> rat" where
  "round_sig b p x =
     (if x = 0 then 0
      else let e = ilog b x - (p - 1)
           in of_int (round_half_even (x / of_int b powi e)) * of_int b powi e)"

subsection \<open>Exceptions and decimal.Decimal\<close>

text \<open>
  The exceptions of the model: the signals that the default Decimal context traps
  (\<open>traps=[InvalidOperation, DivisionByZero, Overflow]\<close>), each raised as an exception,
  and the ZeroDivisionError of a division of integers.
\<close>

datatype error = InvalidOperation | DivisionByZero | Overflow | ZeroDivisionError

text \<open>
  Every Decimal operation reads the ambient context and rounds its exact result with it.
  The context is a parameter of the operations: the rounding function applied to exact
  results. The source never changes the context, so it runs under \<open>default_context\<close>
  (\<open>prec=28, rounding=ROUND_HALF_EVEN\<close>). \<open>exact_context\<close> rounds nothing; it is the
  arithmetic of the specification, used for comparison only.
\<close>

type_synonym "context" = "rat \<Rightarrow> rat"

definition default_context :: "context" where
  "default_context = round_sig 10 28"


definition dec_add :: "context \<Rightarrow> rat \<Rightarrow> rat \<Rightarrow> rat" where
  "dec_add ctx x y = ctx (x + y)"

definition dec_sub :: "context \<Rightarrow> rat \<Rightarrow> rat \<Rightarrow> rat" where
  "dec_sub ctx x y = ctx (x - y)"

definition dec_mul :: "context \<Rightarrow> rat \<Rightarrow> rat \<Rightarrow> rat" where
  "dec_mul ctx x y = ctx (x * y)"

definition dec_div :: "context \<Rightarrow> rat \<Rightarrow> rat \<Rightarrow> error + rat" where
  "dec_div ctx x y =
     (if y = 0 then Inl (if x = 0 then InvalidOperation else DivisionByZero)
      else Inr (ctx (x / y)))"

text \<open>
  \<open>x ** n\<close> for an integer \<open>n\<close>. \<open>0 ** 0\<close> signals InvalidOperation; \<open>0 ** n\<close> for
  negative \<open>n\<close> is Infinity, without an exception. Otherwise the result is the rounded
  power, and Overflow is signalled when its leading digit lies above \<open>Emax = 999999\<close>.
  (The C implementation multiplies repeatedly at a higher working precision, and its
  result may differ from the correctly rounded power in the last digit when the power is
  not representable; where the power is representable the two agree.)
\<close>

datatype power_result = Raised error | Infinite | Finite rat

definition dec_pow :: "context \<Rightarrow> rat \<Rightarrow> int \<Rightarrow> power_result" where
  "dec_pow ctx x n =
     (if x = 0 then (if n = 0 then Raised InvalidOperation
                     else if n < 0 then Infinite else Finite 0)
      else let y = ctx (x powi n)
           in if 999999 < ilog 10 y then Raised Overflow else Finite y)"

text \<open>
  \<open>x.quantize(Decimal('0.01'))\<close>: round to two decimal places, ties to even; signals
  InvalidOperation when the coefficient of the result has more digits than the
  precision of the context (28).
\<close>

definition dec_quantize2 :: "rat \<Rightarrow> error + rat" where
  "dec_quantize2 x =
     (let c = round_half_even (x * 100)
      in if 10 ^ 28 \<le> \<bar>c\<bar> then Inl InvalidOperation else Inr (of_int c / 100))"

section \<open>utils.py: the monthly installment\<close>

text \<open>
  \<open>calculate_monthly_installment(principal, annual_interest_rate, tenure_months)\<close>.
  The conversions \<open>Decimal(principal)\<close>, \<open>Decimal(annual_interest_rate)\<close> and
  \<open>int(tenure_months)\<close> are the identity on a Decimal and on an int. When the power is
  Infinity (base 0, negative tenure), \<open>principal * r * pow_r_n\<close> is Infinity or signals
  InvalidOperation (\<open>0 * Infinity\<close>), \<open>pow_r_n - 1\<close> is Infinity, which is not 0, and
  \<open>numerator / denominator\<close> signals InvalidOperation: the call raises in every case.
  (The parameter \<open>principal\<close> is written \<open>princ\<close>: the name is taken by a constant
  of the library.)
\<close>

definition calculate_monthly_installment_ctx ::
    "context \<Rightarrow> rat \<Rightarrow> rat \<Rightarrow> int \<Rightarrow> error + rat" where
  "calculate_monthly_installment_ctx ctx princ annual_interest_rate tenure_months =
     (if annual_interest_rate = 0 then
        (if tenure_months = 0 then Inr 0
         else case dec_div ctx princ (of_int tenure_months) of
                Inl e \<Rightarrow> Inl e
              | Inr q \<Rightarrow> dec_quantize2 q)
      else
        case dec_div ctx annual_interest_rate 1200 of
          Inl e \<Rightarrow> Inl e
        | Inr r \<Rightarrow>
           (case dec_pow ctx (dec_add ctx 1 r) tenure_months of
              Raised e \<Rightarrow> Inl e
            | Infinite \<Rightarrow> Inl InvalidOperation
            | Finite pow_r_n \<Rightarrow>
               (let numerator = dec_mul ctx (dec_mul ctx princ r) pow_r_n;
                    denominator = dec_sub ctx pow_r_n 1
                in if denominator = 0 then Inr 0
                   else case dec_div ctx numerator denominator of
                          Inl e \<Rightarrow> Inl e
                        | Inr emi \<Rightarrow> dec_quantize2 emi)))"

definition calculate_monthly_installment :: "rat \<Rightarrow> rat \<Rightarrow> int \<Rightarrow> error + rat" where
  "calculate_monthly_installment = calculate_monthly_installment_ctx default_context"


subsection \<open>Floats\<close>

text \<open>
  \<open>a / b\<close> on two Python integers is the correctly rounded binary64 quotient
  (ZeroDivisionError for \<open>b = 0\<close>); \<open>x * y\<close> on floats is the rounded product; \<open>round(x)\<close>
  with one argument rounds a float to the nearest integer, ties to even.
\<close>

definition binary64 :: "rat \<Rightarrow> rat" where
  "binary64 = round_sig 2 53"

definition py_truediv :: "int \<Rightarrow> int \<Rightarrow> error + rat" where
  "py_truediv a b = (if b = 0 then Inl ZeroDivisionError else Inr (binary64 (of_int a / of_int b)))"

definition float_mul :: "rat \<Rightarrow> rat \<Rightarrow> rat" where
  "float_mul x y = binary64 (x * y)"

definition py_round :: "rat \<Rightarrow> int" where
  "py_round x = round_half_even x"

section \<open>models.py: the data model\<close>

text \<open>
  Of \<open>Customer\<close> and \<open>Loan\<close> the fields that the engine reads. An \<open>IntegerField\<close> holds a
  Python integer, a \<open>DecimalField\<close> a Decimal, a \<open>DateField\<close> a \<open>datetime.date\<close>, whose
  order is the lexicographic order of year, month and day.
\<close>

record date =
  year :: int
  month :: int
  day :: int

definition date_le :: "date \<Rightarrow> date \<Rightarrow> bool" where
  "date_le a b \<longleftrightarrow>
     year a < year b \<or>
     (year a = year b \<and> (month a < month b \<or> (month a = month b \<and> day a \<le> day b)))"

record customer =
  monthly_salary :: rat
  approved_limit :: int
  current_debt :: rat
  total_current_emi :: rat

record loan =
  loan_amount :: rat
  tenure :: int
  emis_paid_on_time :: int
  start_date :: date
  end_date :: date

section \<open>services.py: credit score and eligibility\<close>

definition SCORE_WEIGHTS_on_time_payment :: int where
  "SCORE_WEIGHTS_on_time_payment = 40"

definition SCORE_WEIGHTS_loan_volume :: int where
  "SCORE_WEIGHTS_loan_volume = 20"

definition SCORE_WEIGHTS_activity :: int where
  "SCORE_WEIGHTS_activity = 15"

definition SCORE_WEIGHTS_approved_volume :: int where
  "SCORE_WEIGHTS_approved_volume = 15"

definition SCORE_WEIGHTS_limit_check :: int where
  "SCORE_WEIGHTS_limit_check = 10"

definition MIN_INTEREST_RATES_tier_2 :: rat where
  "MIN_INTEREST_RATES_tier_2 = 12"

definition MIN_INTEREST_RATES_tier_3 :: rat where
  "MIN_INTEREST_RATES_tier_3 = 16"

subsection \<open>calculate_credit_score\<close>

text \<open>
  The local variables that the loop over \<open>all_loans\<close> updates, and one iteration of the
  loop. \<open>date.today()\<close> is the parameter \<open>today\<close>, and \<open>customer.loans.all()\<close> the
  parameter \<open>all_loans\<close>.
\<close>

record totals =
  total_emis_paid :: int
  total_emis_due :: int
  total_closed_loans :: int
  total_approved_volume :: rat
  has_recent_default :: bool

definition initial_totals :: totals where
  "initial_totals =
     \<lparr>total_emis_paid = 0, total_emis_due = 0, total_closed_loans = 0,
      total_approved_volume = 0, has_recent_default = False\<rparr>"

definition recent_default :: "date \<Rightarrow> loan \<Rightarrow> error + bool" where
  "recent_default today l =
     (if year (start_date l) = year today then
        (let expected_emis = (year today - year (start_date l)) * 12
                             + (month today - month (start_date l))
         in if 0 < expected_emis then
              (case py_truediv (emis_paid_on_time l) expected_emis of
                 Inl e \<Rightarrow> Inl e
               | Inr q \<Rightarrow> Inr (q < 1 / 2))
            else Inr False)
      else Inr False)"

definition scan_loan :: "date \<Rightarrow> totals \<Rightarrow> loan \<Rightarrow> error + totals" where
  "scan_loan today t l =
     (let t1 = t\<lparr>total_emis_paid := total_emis_paid t + emis_paid_on_time l,
                 total_emis_due := total_emis_due t + tenure l,
                 total_approved_volume :=
                   dec_add default_context (total_approved_volume t) (loan_amount l)\<rparr>;
          t2 = (if date_le (end_date l) today
                then t1\<lparr>total_closed_loans := total_closed_loans t1 + 1\<rparr> else t1)
      in case recent_default today l of
           Inl e \<Rightarrow> Inl e
         | Inr flagged \<Rightarrow> Inr (if flagged then t2\<lparr>has_recent_default := True\<rparr> else t2))"

fun scan_loans :: "date \<Rightarrow> totals \<Rightarrow> loan list \<Rightarrow> error + totals" where
  "scan_loans today t [] = Inr t"
| "scan_loans today t (l # ls) =
     (case scan_loan today t l of
        Inl e \<Rightarrow> Inl e
      | Inr t' \<Rightarrow> scan_loans today t' ls)"

text \<open>The score computed from the totals, after the loop (lines 68 to 95).\<close>

definition score_from_totals :: "totals \<Rightarrow> error + int" where
  "score_from_totals t =
     (case (if 0 < total_emis_due t then
              (case py_truediv (total_emis_paid t) (total_emis_due t) of
                 Inl e \<Rightarrow> Inl e
               | Inr on_time_ratio \<Rightarrow>
                   Inr (SCORE_WEIGHTS_limit_check
                        + py_round (float_mul (of_int SCORE_WEIGHTS_on_time_payment) on_time_ratio)))
            else Inr SCORE_WEIGHTS_limit_check) of
        Inl e \<Rightarrow> Inl e
      | Inr s1 \<Rightarrow>
          (let score_from_volume = min (total_closed_loans t * 5) SCORE_WEIGHTS_loan_volume;
               s2 = s1 + score_from_volume;
               volume_threshold_high = 5000000;
               volume_threshold_medium = 1000000;
               s3 = (if volume_threshold_high \<le> total_approved_volume t
                     then s2 + SCORE_WEIGHTS_approved_volume
                     else if volume_threshold_medium \<le> total_approved_volume t
                     then s2 + 5 else s2);
               s4 = (if \<not> has_recent_default t then s3 + SCORE_WEIGHTS_activity else s3)
           in Inr (min s4 100)))"

definition calculate_credit_score ::
    "date \<Rightarrow> customer \<Rightarrow> loan list \<Rightarrow> rat \<Rightarrow> error + int" where
  "calculate_credit_score today c all_loans requested_loan_amount =
     (if of_int (approved_limit c)
           < dec_add default_context (current_debt c) requested_loan_amount
      then Inr 0
      else case scan_loans today initial_totals all_loans of
             Inl e \<Rightarrow> Inl e
           | Inr t \<Rightarrow> score_from_totals t)"

subsection \<open>check_loan_eligibility\<close>

text \<open>
  The dictionary that \<open>check_loan_eligibility\<close> returns. The rejection at the salary
  check has no keys \<open>interest_rate\<close> and \<open>tenure\<close>: they are \<open>None\<close> there. (The key
  \<open>tenure\<close> is the field \<open>tenure_key\<close>, the parameters \<open>loan_amount\<close> and \<open>tenure\<close> are
  \<open>loan_amount'\<close> and \<open>tenure'\<close>: the plain names are fields of \<open>loan\<close>.)
\<close>

record eligibility =
  approval :: bool
  interest_rate :: "rat option"
  corrected_interest_rate :: rat
  tenure_key :: "int option"
  monthly_installment :: rat
  credit_score :: int
  message :: string

text \<open>
  The body of \<open>check_loan_eligibility\<close> after its first statement (lines 107 to 157), as
  a function of the credit score that the first statement computed.
\<close>

definition eligibility_for_score ::
    "customer \<Rightarrow> int \<Rightarrow> rat \<Rightarrow> rat \<Rightarrow> int \<Rightarrow> error + eligibility" where
  "eligibility_for_score c score loan_amount' requested_rate tenure' =
     (case dec_div default_context (monthly_salary c) 2 of
        Inl e \<Rightarrow> Inl e
      | Inr salary_limit \<Rightarrow>
          if salary_limit < total_current_emi c then
            Inr \<lparr>approval = False, interest_rate = None,
                 corrected_interest_rate = requested_rate, tenure_key = None,
                 monthly_installment = 0, credit_score = score,
                 message = ''Total current EMIs exceed 50% of monthly salary.''\<rparr>
          else
            (let (approved, required_min_rate) =
                   (if 50 < score then (True, 0)
                    else if 30 < score \<and> score \<le> 50 then (True, MIN_INTEREST_RATES_tier_2)
                    else if 10 < score \<and> score \<le> 30 then (True, MIN_INTEREST_RATES_tier_3)
                    else (False, 0));
                 corrected_rate = (if approved \<and> requested_rate < required_min_rate
                                   then required_min_rate else requested_rate);
                 emi_rate = (if approved then corrected_rate else 0)
             in case (if approved
                      then calculate_monthly_installment loan_amount' emi_rate tenure'
                      else Inr 0) of
                  Inl e \<Rightarrow> Inl e
                | Inr emi \<Rightarrow>
                    Inr \<lparr>approval = approved, interest_rate = Some requested_rate,
                         corrected_interest_rate = corrected_rate,
                         tenure_key = Some tenure', monthly_installment = emi,
                         credit_score = score,
                         message = (if approved then ''Loan approved.''
                                    else ''Credit score too low for loan approval.'')\<rparr>))"

definition check_loan_eligibility ::
    "date \<Rightarrow> customer \<Rightarrow> loan list \<Rightarrow> rat \<Rightarrow> rat \<Rightarrow> int \<Rightarrow> error + eligibility" where
  "check_loan_eligibility today c all_loans loan_amount' requested_rate tenure' =
     (case calculate_credit_score today c all_loans loan_amount' of
        Inl e \<Rightarrow> Inl e
      | Inr score \<Rightarrow> eligibility_for_score c score loan_amount' requested_rate tenure')"

section \<open>Properties\<close>

subsection \<open>Rounding\<close>

text \<open>
  Rounding to the nearest integer is monotone, fixes the integers and moves a number by
  at most one half.
\<close>

lemma round_half_even_cases:
  "round_half_even x = \<lfloor>x\<rfloor> \<or> round_half_even x = \<lfloor>x\<rfloor> + 1"
  by (simp add: round_half_even_def Let_def)

lemma round_half_even_of_int [simp]: "round_half_even (of_int k) = k"
  by (simp add: round_half_even_def)

lemma round_half_even_error: "\<bar>of_int (round_half_even x) - x\<bar> \<le> 1 / 2"
proof -
  have "of_int \<lfloor>x\<rfloor> \<le> x" "x < of_int \<lfloor>x\<rfloor> + 1"
    by linarith+
  then show ?thesis
    by (auto simp add: round_half_even_def Let_def abs_le_iff)
qed

lemma round_half_even_unique:
  assumes "\<bar>x - of_int r\<bar> < 1 / 2"
  shows "round_half_even x = r"
proof -
  have "\<bar>of_int (round_half_even x) - x\<bar> \<le> 1 / 2"
    by (rule round_half_even_error)
  with assms have "\<bar>(of_int (round_half_even x) :: rat) - of_int r\<bar> < 1"
    by linarith
  then have "\<bar>round_half_even x - r\<bar> < 1"
    by (metis of_int_abs of_int_diff of_int_less_1_iff)
  then show ?thesis by linarith
qed

lemma round_half_even_mono:
  assumes "x \<le> y"
  shows "round_half_even x \<le> round_half_even y"
proof (cases "\<lfloor>x\<rfloor> = \<lfloor>y\<rfloor>")
  case True
  with assms show ?thesis
    by (auto simp add: round_half_even_def Let_def)
next
  case False
  with assms have "\<lfloor>x\<rfloor> + 1 \<le> \<lfloor>y\<rfloor>"
    using floor_mono [of x y] by linarith
  moreover have "round_half_even x \<le> \<lfloor>x\<rfloor> + 1"
    using round_half_even_cases [of x] by linarith
  moreover have "\<lfloor>y\<rfloor> \<le> round_half_even y"
    using round_half_even_cases [of y] by linarith
  ultimately show ?thesis by linarith
qed

lemma round_half_even_le_int: "x \<le> of_int k \<Longrightarrow> round_half_even x \<le> k"
  using round_half_even_mono [of x "of_int k"] by simp

lemma round_half_even_ge_int: "of_int k \<le> x \<Longrightarrow> k \<le> round_half_even x"
  using round_half_even_mono [of "of_int k" x] by simp

lemma round_half_even_nonneg: "0 \<le> x \<Longrightarrow> 0 \<le> round_half_even x"
  using round_half_even_ge_int [of 0 x] by simp

lemma round_half_even_abs_le_int:
  "\<bar>x\<bar> \<le> of_int k \<Longrightarrow> \<bar>round_half_even x\<bar> \<le> k"
  using round_half_even_le_int [of x k] round_half_even_ge_int [of "- k" x]
  by (simp add: abs_le_iff)

text \<open>The digit count and the exponent of the leading digit are what their names say.\<close>

lemma digit_count_nonneg: "0 \<le> digit_count b n"
  by (induction b n rule: digit_count.induct) (subst digit_count.simps, simp)

lemma digit_count_pos: "1 < b \<Longrightarrow> 0 < n \<Longrightarrow> 1 \<le> digit_count b n"
  using digit_count_nonneg [of b "n div b"] by (subst digit_count.simps) simp

lemma digit_count_bounds:
  "1 < b \<Longrightarrow> 0 < n \<Longrightarrow>
   b ^ nat (digit_count b n - 1) \<le> n \<and> n < b ^ nat (digit_count b n)"
proof (induction b n rule: digit_count.induct)
  case (1 b n)
  let ?m = "n div b"
  have dc: "digit_count b n = digit_count b ?m + 1"
    using "1.prems" by (subst digit_count.simps) simp
  have m_le: "b * ?m \<le> n" and m_gt: "n < b * (?m + 1)"
    using "1.prems" by (simp_all add: algebra_simps minus_mod_eq_mult_div [symmetric] pos_mod_bound)
  show ?case
  proof (cases "0 < ?m")
    case False
    then have "?m = 0"
      using "1.prems" by (simp add: div_int_pos_iff order_less_le pos_imp_zdiv_nonneg_iff)
    with m_gt have "n < b" by simp
    moreover have "digit_count b n = 1"
      using dc \<open>?m = 0\<close> by (simp add: digit_count.simps)
    ultimately show ?thesis using "1.prems" by simp
  next
    case True
    let ?d = "digit_count b ?m"
    have IH: "b ^ nat (?d - 1) \<le> ?m" "?m < b ^ nat ?d"
      using "1.IH" "1.prems" True by simp_all
    have d1: "1 \<le> ?d" using digit_count_pos "1.prems" True by simp
    then have e: "nat ?d = Suc (nat (?d - 1))" by simp
    have "b ^ nat ?d = b * b ^ nat (?d - 1)" by (subst e) simp
    also have "\<dots> \<le> b * ?m" using IH(1) "1.prems" by simp
    finally have lo: "b ^ nat ?d \<le> n" using m_le by simp
    have "?m + 1 \<le> b ^ nat ?d" using IH(2) by simp
    then have "b * (?m + 1) \<le> b * b ^ nat ?d" using "1.prems" by simp
    with m_gt have hi: "n < b ^ Suc (nat ?d)" by simp
    have "nat (?d + 1) = Suc (nat ?d)" using d1 by simp
    with lo hi dc show ?thesis by simp
  qed
qed

lemma ilog_bounds:
  assumes b: "1 < b" and x: "x \<noteq> 0"
  shows "of_int b powi ilog b x \<le> \<bar>x\<bar> \<and> \<bar>x\<bar> < of_int b powi (ilog b x + 1)"
proof -
  have bpos: "(0::rat) < of_int b" using b by simp
  show ?thesis
  proof (cases "1 \<le> \<bar>x\<bar>")
    case True
    let ?n = "\<lfloor>\<bar>x\<bar>\<rfloor>"
    let ?d = "digit_count b ?n"
    have n: "0 < ?n" using True by simp
    have d1: "1 \<le> ?d" using digit_count_pos b n by simp
    have k: "ilog b x = ?d - 1" using True by (simp add: ilog_def)
    have bd: "b ^ nat (?d - 1) \<le> ?n" "?n < b ^ nat ?d"
      using digit_count_bounds [OF b n] by simp_all
    have "(of_int b :: rat) powi (?d - 1) = of_int (b ^ nat (?d - 1))"
      using d1 by (simp add: power_int_def)
    also have "\<dots> \<le> of_int ?n" using bd(1) by (simp only: of_int_le_iff)
    also have "\<dots> \<le> \<bar>x\<bar>" by simp
    finally have lo: "of_int b powi ilog b x \<le> \<bar>x\<bar>" using k by simp
    have "\<bar>x\<bar> < of_int (b ^ nat ?d)" using bd(2) by (simp only: floor_less_iff)
    also have "\<dots> = (of_int b :: rat) powi ?d"
      using d1 by (simp add: power_int_def)
    finally have "\<bar>x\<bar> < of_int b powi (ilog b x + 1)" using k by simp
    with lo show ?thesis by simp
  next
    case False
    let ?y = "1 / \<bar>x\<bar>"
    let ?c = "\<lceil>?y\<rceil> - 1"
    let ?d = "digit_count b ?c"
    have ax: "0 < \<bar>x\<bar>" "\<bar>x\<bar> < 1" using x False by simp_all
    then have y1: "1 < ?y" by simp
    then have c: "0 < ?c" by (simp add: less_ceiling_iff)
    have d1: "1 \<le> ?d" using digit_count_pos b c by simp
    have k: "ilog b x = - ?d" using False by (simp add: ilog_def)
    have bd: "b ^ nat (?d - 1) \<le> ?c" "?c < b ^ nat ?d"
      using digit_count_bounds [OF b c] by simp_all
    have "\<lceil>?y\<rceil> \<le> b ^ nat ?d" using bd(2) by simp
    then have "?y \<le> of_int (b ^ nat ?d)" by (simp only: ceiling_le_iff)
    then have yle: "?y \<le> of_int b ^ nat ?d" by simp
    have bp: "(0::rat) < of_int b ^ nat ?d" using bpos by simp
    have "1 / of_int b ^ nat ?d \<le> \<bar>x\<bar>"
      using yle ax(1) bp by (simp add: field_simps)
    moreover have "(of_int b :: rat) powi (- ?d) = 1 / of_int b ^ nat ?d"
      using d1 by (simp add: power_int_def field_simps)
    ultimately have lo: "of_int b powi ilog b x \<le> \<bar>x\<bar>" using k by simp
    have "b ^ nat (?d - 1) < \<lceil>?y\<rceil>" using bd(1) by simp
    then have "of_int (b ^ nat (?d - 1)) < ?y" by (simp only: less_ceiling_iff)
    then have ylt: "of_int b ^ nat (?d - 1) < ?y" by simp
    have bp': "(0::rat) < of_int b ^ nat (?d - 1)" using bpos by simp
    have "\<bar>x\<bar> < 1 / of_int b ^ nat (?d - 1)"
      using ylt ax(1) bp' by (simp add: field_simps)
    moreover have "(of_int b :: rat) powi (- ?d + 1) = 1 / of_int b ^ nat (?d - 1)"
    proof (cases "?d = 1")
      case True
      then show ?thesis by simp
    next
      case False
      with d1 have "- ?d + 1 < 0" by simp
      moreover have "nat (- (- ?d + 1)) = nat (?d - 1)" by simp
      ultimately show ?thesis by (simp add: power_int_def field_simps)
    qed
    ultimately have "\<bar>x\<bar> < of_int b powi (ilog b x + 1)" using k by simp
    with lo show ?thesis by simp
  qed
qed

text \<open>
  Rounding to \<open>p\<close> significant digits keeps the sign, stays below every bound that has at
  most \<open>p\<close> digits itself, moves a number by at most half a unit in the last place, and
  fixes the numbers of at most \<open>p\<close> digits.
\<close>

lemma ilog_less:
  assumes "1 < b" and "x \<noteq> 0" and "\<bar>x\<bar> < of_int b powi k"
  shows "ilog b x < k"
proof (rule ccontr)
  assume "\<not> ilog b x < k"
  then have "(of_int b :: rat) powi k \<le> of_int b powi ilog b x"
    using assms(1) by (intro power_int_increasing) simp_all
  with ilog_bounds [OF assms(1,2)] assms(3) show False by linarith
qed

lemma power_int_neg_exp:
  "e \<le> 0 \<Longrightarrow> (x::rat) / of_int b powi e = x * of_int (b ^ nat (- e))"
  by (cases "e = 0") (simp_all add: power_int_def field_simps)

lemma round_sig_nonneg:
  assumes "1 < b" and "0 \<le> x"
  shows "0 \<le> round_sig b p x"
proof (cases "x = 0")
  case True
  then show ?thesis by (simp add: round_sig_def)
next
  case False
  define e where "e = ilog b x - (p - 1)"
  have pos: "(0::rat) < of_int b powi e" using assms(1) by (simp add: power_int_def)
  then have "0 \<le> x / of_int b powi e" using assms(2) by simp
  then have "0 \<le> round_half_even (x / of_int b powi e)"
    by (rule round_half_even_nonneg)
  then show ?thesis
    using False pos by (simp add: round_sig_def Let_def e_def [symmetric])
qed

lemma round_sig_abs_le:
  assumes b: "1 < b" and le: "\<bar>x\<bar> \<le> of_int c" and c: "(of_int c :: rat) < of_int b powi p"
  shows "\<bar>round_sig b p x\<bar> \<le> of_int c"
proof (cases "x = 0")
  case True
  with le show ?thesis by (simp add: round_sig_def)
next
  case False
  define e where "e = ilog b x - (p - 1)"
  have "ilog b x < p"
    using ilog_less [OF b False, of p] le c by linarith
  then have e0: "e \<le> 0" by (simp add: e_def)
  define B where "B = b ^ nat (- e)"
  have Bpos: "0 < B" using b by (simp add: B_def)
  have q: "x / of_int b powi e = x * of_int B"
    using power_int_neg_exp [OF e0] by (simp add: B_def)
  have pw: "(of_int b :: rat) powi e = 1 / of_int B"
    using e0 by (cases "e = 0") (simp_all add: power_int_def B_def field_simps)
  have "\<bar>x * of_int B\<bar> \<le> of_int (c * B)"
    using le Bpos by (simp add: abs_mult mult_right_mono)
  then have "\<bar>round_half_even (x * of_int B)\<bar> \<le> c * B"
    by (rule round_half_even_abs_le_int)
  then have "\<bar>(of_int (round_half_even (x * of_int B)) :: rat)\<bar> \<le> of_int (c * B)"
    by (simp only: of_int_abs [symmetric] of_int_le_iff)
  then have "\<bar>(of_int (round_half_even (x * of_int B)) :: rat)\<bar> / of_int B \<le> of_int c"
    using Bpos by (simp add: field_simps)
  moreover have "round_sig b p x = of_int (round_half_even (x * of_int B)) / of_int B"
    using False by (simp add: round_sig_def Let_def e_def [symmetric] q pw)
  ultimately show ?thesis using Bpos by (simp add: abs_divide)
qed

lemma round_sig_error:
  assumes b: "1 < b" and x: "x \<noteq> 0"
  shows "\<bar>round_sig b p x - x\<bar> \<le> of_int b powi (ilog b x - (p - 1)) / 2"
proof -
  define e where "e = ilog b x - (p - 1)"
  define s :: rat where "s = of_int b powi e"
  have s: "0 < s" using b by (simp add: s_def power_int_def)
  have "\<bar>of_int (round_half_even (x / s)) - x / s\<bar> \<le> 1 / 2"
    by (rule round_half_even_error)
  then have "\<bar>of_int (round_half_even (x / s)) - x / s\<bar> * s \<le> 1 / 2 * s"
    using s by (intro mult_right_mono) simp_all
  moreover have "\<bar>of_int (round_half_even (x / s)) - x / s\<bar> * s
      = \<bar>of_int (round_half_even (x / s)) * s - x\<bar>"
  proof -
    have "\<bar>of_int (round_half_even (x / s)) - x / s\<bar> * s
        = \<bar>(of_int (round_half_even (x / s)) - x / s) * s\<bar>"
      using s by (simp add: abs_mult)
    also have "(of_int (round_half_even (x / s)) - x / s) * s
        = of_int (round_half_even (x / s)) * s - x"
      using s by (simp add: left_diff_distrib)
    finally show ?thesis .
  qed
  ultimately show ?thesis
    using x by (simp add: round_sig_def Let_def e_def [symmetric] s_def [symmetric])
qed

lemma round_sig_exact:
  assumes b: "1 < b" and m: "x * of_int b ^ k = of_int m"
    and lt: "\<bar>x\<bar> < of_int b powi (p - int k)"
  shows "round_sig b p x = x"
proof (cases "x = 0")
  case True
  then show ?thesis by (simp add: round_sig_def)
next
  case False
  define e where "e = ilog b x - (p - 1)"
  have "ilog b x < p - int k" using ilog_less [OF b False lt] .
  then have e: "e \<le> - int k" by (simp add: e_def)
  then have e0: "e \<le> 0" by simp
  define j where "j = nat (- e) - k"
  have nj: "nat (- e) = k + j" using e by (simp add: j_def)
  define s :: rat where "s = of_int b powi e"
  have s: "s \<noteq> 0" using b by (simp add: s_def power_int_def)
  have "x / s = x * of_int (b ^ nat (- e))"
    using power_int_neg_exp [OF e0] by (simp add: s_def)
  also have "\<dots> = (x * of_int b ^ k) * of_int b ^ j"
    by (simp add: nj power_add)
  also have "\<dots> = of_int (m * b ^ j)" by (simp add: m)
  finally have "x / s = of_int (m * b ^ j)" .
  then have "of_int (round_half_even (x / s)) = x / s"
    by (simp only: round_half_even_of_int)
  then show ?thesis
    using False s by (simp add: round_sig_def Let_def e_def [symmetric] s_def [symmetric])
qed

subsection \<open>The Decimal context\<close>


lemma default_context_abs_le:
  assumes "\<bar>x\<bar> \<le> of_int c" and "c < 10 ^ 28"
  shows "\<bar>default_context x\<bar> \<le> of_int c"
proof -
  have "(of_int c :: rat) < of_int (10 ^ 28)" using assms(2) by (simp only: of_int_less_iff)
  then have "(of_int c :: rat) < of_int 10 powi 28" by simp
  then show ?thesis
    unfolding default_context_def
    using assms(1) by (intro round_sig_abs_le) simp_all
qed

lemma dec_quantize2_returns:
  assumes "\<bar>x\<bar> \<le> 10 ^ 25"
  shows "dec_quantize2 x = Inr (of_int (round_half_even (x * 100)) / 100)"
proof -
  have "\<bar>x * 100\<bar> \<le> of_int (10 ^ 27)" using assms by (simp add: abs_mult)
  then have "\<bar>round_half_even (x * 100)\<bar> \<le> 10 ^ 27"
    by (rule round_half_even_abs_le_int)
  then have "\<not> 10 ^ 28 \<le> \<bar>round_half_even (x * 100)\<bar>" by simp
  then show ?thesis by (simp add: dec_quantize2_def Let_def)
qed

lemma default_context_exact:
  assumes "x * 10 ^ k = of_int m" and "\<bar>x\<bar> < 10 ^ (28 - k)" and "k \<le> 28"
  shows "default_context x = x"
proof -
  have "(10::rat) ^ (28 - k) = of_int 10 powi (28 - int k)"
    using assms(3) by (simp add: power_int_def of_nat_diff)
  then have "\<bar>x\<bar> < of_int 10 powi (28 - int k)" using assms(2) by simp
  moreover have "x * of_int 10 ^ k = of_int m" using assms(1) by simp
  ultimately show ?thesis
    unfolding default_context_def by (intro round_sig_exact [of 10 x k m 28]) simp_all
qed

lemma default_context_error:
  assumes "x \<noteq> 0" and "\<bar>x\<bar> < 10 ^ 10"
  shows "\<bar>default_context x - x\<bar> \<le> 1 / (2 * 10 ^ 18)"
proof -
  have "\<bar>x\<bar> < of_int 10 powi 10" using assms(2) by simp
  then have "ilog 10 x < 10" by (intro ilog_less [OF _ assms(1)]) simp_all
  then have "ilog 10 x - (28 - 1) \<le> - 18" by simp
  then have "(of_int 10 :: rat) powi (ilog 10 x - (28 - 1)) \<le> of_int 10 powi (- 18)"
    by (intro power_int_increasing) simp_all
  also have "(of_int 10 :: rat) powi (- 18) = 1 / 10 ^ 18"
    by (simp add: power_int_def field_simps)
  finally have "(of_int 10 :: rat) powi (ilog 10 x - (28 - 1)) / 2 \<le> 1 / 10 ^ 18 / 2"
    by (intro divide_right_mono) simp_all
  moreover have "\<bar>default_context x - x\<bar> \<le> of_int 10 powi (ilog 10 x - (28 - 1)) / 2"
    unfolding default_context_def by (intro round_sig_error [OF _ assms(1)]) simp
  ultimately show ?thesis by simp
qed


lemma quotient_abs_le:
  fixes x :: rat
  assumes "n \<noteq> 0"
  shows "\<bar>x / of_int n\<bar> \<le> \<bar>x\<bar>"
proof -
  have "1 \<le> \<bar>n\<bar>" using assms by simp
  then have "(1::rat) \<le> \<bar>of_int n\<bar>" by (simp only: of_int_abs [symmetric] of_int_1_le_iff)
  then have "\<bar>x\<bar> / \<bar>of_int n\<bar> \<le> \<bar>x\<bar> / 1"
    by (intro divide_left_mono) simp_all
  then show ?thesis by (simp add: abs_divide)
qed

subsection \<open>The score is always returned\<close>

text \<open>
  Both divisions of integers are guarded by a test of the divisor, so that
  \<open>calculate_credit_score\<close> raises no exception.
\<close>

lemma recent_default_returns: "\<exists>f. recent_default today l = Inr f"
  by (auto simp add: recent_default_def py_truediv_def Let_def)

lemma scan_loan_returns: "\<exists>t'. scan_loan today t l = Inr t'"
  using recent_default_returns [of today l]
  by (auto simp add: scan_loan_def Let_def)

lemma scan_loans_returns: "\<exists>t'. scan_loans today t ls = Inr t'"
proof (induction ls arbitrary: t)
  case Nil
  show ?case by simp
next
  case (Cons l ls)
  obtain t1 where "scan_loan today t l = Inr t1"
    using scan_loan_returns by blast
  with Cons.IH [of t1] show ?case by simp
qed

lemma score_from_totals_returns: "\<exists>s. score_from_totals t = Inr s"
  by (auto simp add: score_from_totals_def py_truediv_def Let_def)

lemma calculate_credit_score_returns:
  "\<exists>s. calculate_credit_score today c all_loans requested_loan_amount = Inr s"
proof -
  obtain t where "scan_loans today initial_totals all_loans = Inr t"
    using scan_loans_returns by blast
  then show ?thesis
    using score_from_totals_returns [of t] by (simp add: calculate_credit_score_def)
qed


subsection \<open>The debt limit\<close>

text \<open>
  Claim C1. When the current debt plus the requested amount (the Decimal sum that the
  source compares, \<open>customer.current_debt + requested_loan_amount\<close>) is strictly greater
  than the approved limit, \<open>calculate_credit_score\<close> returns 0, whatever the loans and
  the date.
\<close>

theorem score_zero_over_limit:
  "of_int (approved_limit c) < dec_add default_context (current_debt c) requested_loan_amount
   \<Longrightarrow> calculate_credit_score today c all_loans requested_loan_amount = Inr 0"
  by (simp add: calculate_credit_score_def)


theorem score_zero_over_limit_witness:
  "rat_of_int 1800000 < dec_add default_context 1700000 200000 \<and>
   calculate_credit_score \<lparr>year = 2024, month = 6, day = 15\<rparr>
     \<lparr>monthly_salary = 50000, approved_limit = 1800000, current_debt = 1700000,
      total_current_emi = 0\<rparr>
     [\<lparr>loan_amount = 100000, tenure = 12, emis_paid_on_time = 12,
       start_date = \<lparr>year = 2022, month = 1, day = 1\<rparr>,
       end_date = \<lparr>year = 2023, month = 1, day = 1\<rparr>\<rparr>] 200000 = Inr 0"
proof -
  have h: "rat_of_int 1800000 < dec_add default_context 1700000 200000"
    by code_simp
  show ?thesis
    using h score_zero_over_limit
      [of "\<lparr>monthly_salary = 50000, approved_limit = 1800000, current_debt = 1700000,
            total_current_emi = 0\<rparr>" 200000]
    by simp
qed


text \<open>
  Claim C5. With no loans and the debt limit respected, the score is 25: 10 for the limit
  check and 15 for the activity, nothing from the ratio, the closed loans and the volume.
\<close>

theorem score_empty_history:
  "\<not> of_int (approved_limit c) < dec_add default_context (current_debt c) requested_loan_amount
   \<Longrightarrow> calculate_credit_score today c [] requested_loan_amount = Inr 25"
  by (simp add: calculate_credit_score_def score_from_totals_def initial_totals_def
      SCORE_WEIGHTS_limit_check_def SCORE_WEIGHTS_activity_def SCORE_WEIGHTS_loan_volume_def)


theorem score_empty_history_witness:
  "\<not> rat_of_int 1800000 < dec_add default_context 0 100000 \<and>
   calculate_credit_score \<lparr>year = 2024, month = 6, day = 15\<rparr>
     \<lparr>monthly_salary = 50000, approved_limit = 1800000, current_debt = 0,
      total_current_emi = 0\<rparr> [] 100000 = Inr 25"
proof -
  have h: "\<not> rat_of_int 1800000 < dec_add default_context 0 100000"
    by code_simp
  show ?thesis
    using h score_empty_history
      [of "\<lparr>monthly_salary = 50000, approved_limit = 1800000, current_debt = 0,
            total_current_emi = 0\<rparr>" 100000]
    by simp
qed

subsection \<open>The installment\<close>

text \<open>
  Claim C7. A principal of 100000 at 12 percent a year over 12 months has the monthly
  installment 8884.88. Every intermediate value has at most 28 digits, except the last
  quotient.
\<close>

theorem installment_example:
  "calculate_monthly_installment 100000 12 12 = Inr (888488 / 100)"
  by code_simp


text \<open>The branch of rate 0, unfolded.\<close>

lemma zero_rate_value:
  "calculate_monthly_installment princ 0 n =
     (if n = 0 then Inr 0 else dec_quantize2 (default_context (princ / of_int n)))"
  by (simp add: calculate_monthly_installment_def calculate_monthly_installment_ctx_def
      dec_div_def)

text \<open>
  For a principal of at most 12 digits with 2 decimal places (\<open>DecimalField(max_digits=12,
  decimal_places=2)\<close>) and a tenure of a 32-bit \<open>IntegerField\<close>, the two roundings of the
  source, to 28 significant digits by the division and to 2 places by \<open>quantize\<close>, give
  the quotient rounded once: a quotient \<open>p / n\<close> of integers that is not half an odd
  integer is further than \<open>1 / (2 n)\<close> from every such half, and one that is has at most
  3 decimal places and is not rounded by the division.
\<close>

lemma zero_rate_exact:
  assumes p: "princ = of_int p / 100" and pb: "\<bar>p\<bar> < 10 ^ 12"
    and n: "0 < n" "n < 2 ^ 31"
  shows "calculate_monthly_installment princ 0 n =
           Inr (of_int (round_half_even (princ / of_int n * 100)) / 100)"
proof -
  define x where "x = princ / of_int n"
  define u where "u = x * 100"
  define y where "y = default_context x"
  define r where "r = round_half_even u"
  define d where "d = \<bar>p - r * n\<bar>"
  have npos: "(0::rat) < of_int n" using n(1) by simp
  have u: "u = of_int p / of_int n" by (simp add: u_def x_def p)
  have "\<bar>of_int p :: rat\<bar> < of_int (10 ^ 12)"
    using pb by (simp only: of_int_abs [symmetric] of_int_less_iff)
  then have pr: "\<bar>princ\<bar> < 10 ^ 10" by (simp add: p)
  have xp: "\<bar>x\<bar> \<le> \<bar>princ\<bar>"
    unfolding x_def using n(1) by (intro quotient_abs_le) simp
  have xb: "\<bar>x\<bar> < 10 ^ 10" using xp pr by simp
  have "\<bar>x\<bar> \<le> of_int (10 ^ 25)" using xb by simp
  then have "\<bar>y\<bar> \<le> of_int (10 ^ 25)"
    unfolding y_def by (rule default_context_abs_le) simp
  then have yb: "\<bar>y\<bar> \<le> 10 ^ 25" by simp
  have dq: "dec_quantize2 y = Inr (of_int (round_half_even (y * 100)) / 100)"
    using yb by (rule dec_quantize2_returns)
  have err: "\<bar>of_int r - u\<bar> \<le> 1 / 2"
    unfolding r_def by (rule round_half_even_error)
  have "of_int r - u = of_int (r * n - p) / of_int n"
    using npos by (simp add: u field_simps)
  then have "\<bar>of_int r - u\<bar> = \<bar>of_int (r * n - p) :: rat\<bar> / of_int n"
    using npos by (simp add: abs_divide)
  also have "\<bar>of_int (r * n - p) :: rat\<bar> = of_int d"
    by (simp add: d_def abs_minus_commute)
  finally have ud: "\<bar>of_int r - u\<bar> = of_int d / of_int n" .
  have "of_int d / of_int n \<le> (1::rat) / 2" using err ud by simp
  then have "(of_int (2 * d) :: rat) \<le> of_int n" using npos by (simp add: field_simps)
  then have d2: "2 * d \<le> n" by (simp only: of_int_le_iff)
  have main: "round_half_even (y * 100) = r"
  proof (cases "2 * d = n")
    case True
    have "2 * (p - r * n) = n \<or> 2 * (p - r * n) = - n"
      using True by (auto simp add: d_def abs_if split: if_splits)
    then obtain m where m: "10 * p = m * n"
    proof
      assume "2 * (p - r * n) = n"
      then have "10 * p = (10 * r + 5) * n" by (simp add: algebra_simps)
      then show ?thesis by (rule that)
    next
      assume "2 * (p - r * n) = - n"
      then have "10 * p = (10 * r - 5) * n" by (simp add: algebra_simps)
      then show ?thesis by (rule that)
    qed
    have "x * 10 ^ 3 = of_int (10 * p) / of_int n" by (simp add: x_def p)
    also have "\<dots> = of_int m" using npos by (simp only: m) simp
    finally have "x * 10 ^ 3 = of_int m" .
    moreover have "\<bar>x\<bar> < 10 ^ (28 - 3)" using xb by simp
    ultimately have "default_context x = x"
      by (rule default_context_exact) simp
    then show ?thesis by (simp add: y_def r_def u_def)
  next
    case False
    with d2 have "2 * d + 1 \<le> n" by simp
    then have "(of_int (2 * d + 1) :: rat) \<le> of_int n" by (simp only: of_int_le_iff)
    then have dn: "of_int d / of_int n \<le> (1::rat) / 2 - 1 / (2 * of_int n)"
      using npos by (simp add: field_simps)
    have "(of_int n :: rat) < of_int (2 ^ 31)" using n(2) by (simp only: of_int_less_iff)
    then have nb: "(of_int n :: rat) < 10 ^ 16" by simp
    then have small: "(1::rat) / (2 * 10 ^ 16) < 1 / (2 * of_int n)"
      using npos by (simp add: field_simps)
    have yx: "\<bar>y * 100 - u\<bar> \<le> 1 / (2 * 10 ^ 16)"
    proof (cases "x = 0")
      case True
      then show ?thesis by (simp add: y_def u_def default_context_def round_sig_def)
    next
      case False
      have "\<bar>y - x\<bar> \<le> 1 / (2 * 10 ^ 18)"
        unfolding y_def using False xb by (rule default_context_error)
      then have "\<bar>y - x\<bar> * 100 \<le> 1 / (2 * 10 ^ 16)"
        by simp
      moreover have "y * 100 - u = (y - x) * 100"
        by (simp add: u_def left_diff_distrib)
      then have "\<bar>y * 100 - u\<bar> = \<bar>y - x\<bar> * 100"
        by (simp only: abs_mult abs_numeral)
      ultimately show ?thesis by (simp only:)
    qed
    have "\<bar>y * 100 - of_int r\<bar> \<le> \<bar>y * 100 - u\<bar> + \<bar>of_int r - u\<bar>"
      by linarith
    also have "\<dots> \<le> 1 / (2 * 10 ^ 16) + (1 / 2 - 1 / (2 * of_int n))"
      using yx dn ud by linarith
    also have "\<dots> < 1 / 2" using small by linarith
    finally show ?thesis by (rule round_half_even_unique)
  qed
  have "calculate_monthly_installment princ 0 n = dec_quantize2 y"
    using n(1) by (simp add: zero_rate_value y_def x_def)
  then show ?thesis by (simp add: dq main r_def u_def x_def)
qed

text \<open>
  Claim C6. At rate 0 the installment is 0 for tenure 0, and for every other tenure the
  principal divided by the tenure (the Decimal quotient) rounded to 2 decimal places by
  \<open>quantize\<close>; for a principal \<open>p / 100\<close> of at most 12 digits and a tenure between 1 and
  \<open>2^31 - 1\<close> this is the exact quotient rounded to 2 decimal places, ties to even.
\<close>

theorem zero_rate_installment:
  "(n = 0 \<longrightarrow> calculate_monthly_installment princ 0 n = Inr 0)
   \<and> (n \<noteq> 0 \<longrightarrow> calculate_monthly_installment princ 0 n
                 = dec_quantize2 (default_context (princ / of_int n)))
   \<and> (0 < n \<and> n < 2 ^ 31 \<and> princ = of_int p / 100 \<and> \<bar>p\<bar> < 10 ^ 12
        \<longrightarrow> calculate_monthly_installment princ 0 n
            = Inr (of_int (round_half_even (princ / of_int n * 100)) / 100))"
  using zero_rate_exact [of princ p n] by (simp add: zero_rate_value)

theorem zero_rate_installment_witness:
  "(12::int) \<noteq> 0 \<and> (0::int) < 12 \<and> (12::int) < 2 ^ 31
   \<and> (1000::rat) = of_int 100000 / 100 \<and> \<bar>100000 :: int\<bar> < 10 ^ 12
   \<and> calculate_monthly_installment 1000 0 12 = Inr (8333 / 100)"
proof -
  have e: "of_int (round_half_even (1000 / of_int 12 * 100)) / 100 = (8333 / 100 :: rat)"
    by code_simp
  have "calculate_monthly_installment 1000 0 12
      = Inr (of_int (round_half_even (1000 / of_int 12 * 100)) / 100)"
    using zero_rate_installment [of 12 1000 100000, THEN conjunct2, THEN conjunct2] by simp
  then show ?thesis by (simp only: e) simp
qed

text \<open>
  Outside that range the two roundings show: a principal of 29 digits just above 1.005 is
  rounded to 1.005 by the division and then to 1.00, and a result of 27 integer digits
  makes \<open>quantize\<close> raise.
\<close>

lemma zero_rate_beyond_precision:
  "calculate_monthly_installment (10050000000000000000000000001 / 10 ^ 28) 0 1 = Inr 1
   \<and> calculate_monthly_installment (10 ^ 26) 0 1 = Inl InvalidOperation"
  by code_simp

subsection \<open>Inputs that are not validated\<close>

text \<open>
  Claim C9 states that a negative principal and a tenure that is not positive are
  rejected. The source has no such test: both are computed with.
\<close>

theorem invalid_input_counterexample:
  "calculate_monthly_installment (- 1000) 0 12 = Inr (- (8333 / 100))
   \<and> calculate_monthly_installment 1000 0 (- 12) = Inr (- (8333 / 100))
   \<and> calculate_monthly_installment 1000 10 0 = Inr 0"
  by code_simp

text \<open>
  Claim C9, as the source has it. At rate 0, \<open>calculate_monthly_installment\<close> returns a
  value for every tenure, negative and 0 included, and every principal of at most 26
  digits before the point, negative included: 0 for tenure 0 and the rounded quotient
  otherwise. No exception is raised.
\<close>

theorem no_validation_at_zero_rate:
  assumes "\<bar>princ\<bar> \<le> 10 ^ 25"
  shows "calculate_monthly_installment princ 0 n =
           Inr (if n = 0 then 0
                else of_int (round_half_even (default_context (princ / of_int n) * 100)) / 100)"
proof (cases "n = 0")
  case True
  then show ?thesis by (simp add: zero_rate_value)
next
  case False
  have "\<bar>princ / of_int n\<bar> \<le> of_int (10 ^ 25)"
    using quotient_abs_le [OF False, of princ] assms by simp
  then have "\<bar>default_context (princ / of_int n)\<bar> \<le> of_int (10 ^ 25)"
    by (rule default_context_abs_le) simp
  then have "\<bar>default_context (princ / of_int n)\<bar> \<le> 10 ^ 25" by simp
  then show ?thesis
    using False by (simp add: zero_rate_value dec_quantize2_returns)
qed

theorem no_validation_at_zero_rate_witness:
  "\<bar>- 1000 :: rat\<bar> \<le> 10 ^ 25
   \<and> calculate_monthly_installment (- 1000) 0 (- 12) = Inr (8333 / 100)"
proof -
  have e: "of_int (round_half_even (default_context (- 1000 / of_int (- 12)) * 100)) / 100
      = (8333 / 100 :: rat)"
    by code_simp
  show ?thesis
    using no_validation_at_zero_rate [of "- 1000" "- 12"] e by simp
qed

subsection \<open>The installment and the rate\<close>












subsection \<open>The decision\<close>

text \<open>
  Claim C2. When the current total EMI is strictly greater than half the monthly salary
  (the Decimal quotient \<open>monthly_salary / Decimal(2)\<close> of the source), the decision is a
  rejection with installment 0 and the requested rate as corrected rate, for every score,
  amount, rate and tenure; so is the result of \<open>check_loan_eligibility\<close> on every history.
\<close>

theorem salary_gate_rejects:
  assumes "dec_div default_context (monthly_salary c) 2 = Inr salary_limit"
    and "salary_limit < total_current_emi c"
  shows "eligibility_for_score c score loan_amount' requested_rate tenure' =
           Inr \<lparr>approval = False, interest_rate = None,
                corrected_interest_rate = requested_rate, tenure_key = None,
                monthly_installment = 0, credit_score = score,
                message = ''Total current EMIs exceed 50% of monthly salary.''\<rparr>
         \<and> (\<exists>d. check_loan_eligibility today c all_loans loan_amount' requested_rate tenure'
                   = Inr d
                \<and> approval d = False \<and> monthly_installment d = 0
                \<and> corrected_interest_rate d = requested_rate)"
proof -
  have body: "eligibility_for_score c s loan_amount' requested_rate tenure' =
           Inr \<lparr>approval = False, interest_rate = None,
                corrected_interest_rate = requested_rate, tenure_key = None,
                monthly_installment = 0, credit_score = s,
                message = ''Total current EMIs exceed 50% of monthly salary.''\<rparr>" for s
    using assms by (simp add: eligibility_for_score_def)
  obtain s where "calculate_credit_score today c all_loans loan_amount' = Inr s"
    using calculate_credit_score_returns by blast
  then show ?thesis
    by (simp add: check_loan_eligibility_def body)
qed

theorem salary_gate_rejects_witness:
  "dec_div default_context 50000 2 = Inr 25000 \<and> (25000::rat) < 30000 \<and>
   eligibility_for_score
     \<lparr>monthly_salary = 50000, approved_limit = 1800000, current_debt = 0,
      total_current_emi = 30000\<rparr> 80 100000 10 12 =
     Inr \<lparr>approval = False, interest_rate = None, corrected_interest_rate = 10,
          tenure_key = None, monthly_installment = 0, credit_score = 80,
          message = ''Total current EMIs exceed 50% of monthly salary.''\<rparr>"
proof -
  have h: "dec_div default_context 50000 2 = Inr 25000"
    by code_simp
  show ?thesis
    using h salary_gate_rejects
      [of "\<lparr>monthly_salary = 50000, approved_limit = 1800000, current_debt = 0,
            total_current_emi = 30000\<rparr>" 25000 80 100000 10 12]
    by simp
qed


text \<open>
  Claim C10. The score is computed first and reported: the \<open>credit_score\<close> of every
  decision that \<open>check_loan_eligibility\<close> returns is the result of
  \<open>calculate_credit_score\<close> on the same customer, loans and amount, and a call that the
  salary check rejects does return such a decision.
\<close>

theorem score_reported:
  "(\<forall>d. check_loan_eligibility today c all_loans loan_amount' requested_rate tenure' = Inr d
        \<longrightarrow> calculate_credit_score today c all_loans loan_amount' = Inr (credit_score d))
   \<and> (\<forall>salary_limit.
         dec_div default_context (monthly_salary c) 2 = Inr salary_limit
         \<and> salary_limit < total_current_emi c
        \<longrightarrow> (\<exists>d. check_loan_eligibility today c all_loans loan_amount' requested_rate tenure'
                   = Inr d
                 \<and> approval d = False
                 \<and> calculate_credit_score today c all_loans loan_amount'
                   = Inr (credit_score d)))"
proof -
  obtain s where s: "calculate_credit_score today c all_loans loan_amount' = Inr s"
    using calculate_credit_score_returns by blast
  have field: "credit_score d = s"
    if "eligibility_for_score c s loan_amount' requested_rate tenure' = Inr d" for d
    using that
    by (auto simp add: eligibility_for_score_def dec_div_def Let_def
        split: if_splits sum.splits prod.splits)
  have gate: "eligibility_for_score c s loan_amount' requested_rate tenure' =
           Inr \<lparr>approval = False, interest_rate = None,
                corrected_interest_rate = requested_rate, tenure_key = None,
                monthly_installment = 0, credit_score = s,
                message = ''Total current EMIs exceed 50% of monthly salary.''\<rparr>"
    if "dec_div default_context (monthly_salary c) 2 = Inr l" "l < total_current_emi c" for l
    using that by (simp add: eligibility_for_score_def)
  show ?thesis
    using s field gate by (auto simp add: check_loan_eligibility_def)
qed

theorem score_reported_witness:
  "check_loan_eligibility \<lparr>year = 2024, month = 6, day = 15\<rparr>
     \<lparr>monthly_salary = 50000, approved_limit = 1800000, current_debt = 0,
      total_current_emi = 30000\<rparr> [] 100000 10 12 =
     Inr \<lparr>approval = False, interest_rate = None, corrected_interest_rate = 10,
          tenure_key = None, monthly_installment = 0, credit_score = 25,
          message = ''Total current EMIs exceed 50% of monthly salary.''\<rparr>
   \<and> calculate_credit_score \<lparr>year = 2024, month = 6, day = 15\<rparr>
     \<lparr>monthly_salary = 50000, approved_limit = 1800000, current_debt = 0,
      total_current_emi = 30000\<rparr> [] 100000 = Inr 25"
proof -
  have h: "check_loan_eligibility \<lparr>year = 2024, month = 6, day = 15\<rparr>
     \<lparr>monthly_salary = 50000, approved_limit = 1800000, current_debt = 0,
      total_current_emi = 30000\<rparr> [] 100000 10 12 =
     Inr \<lparr>approval = False, interest_rate = None, corrected_interest_rate = 10,
          tenure_key = None, monthly_installment = 0, credit_score = 25,
          message = ''Total current EMIs exceed 50% of monthly salary.''\<rparr>"
    by code_simp
  show ?thesis
    using h score_reported
      [of "\<lparr>year = 2024, month = 6, day = 15\<rparr>"
          "\<lparr>monthly_salary = 50000, approved_limit = 1800000, current_debt = 0,
            total_current_emi = 30000\<rparr>" "[]" 100000 10 12]
    by simp
qed

text \<open>
  Claim C3, as the source has it. A call that passes the salary check approves every
  score above 10, with the corrected rate the maximum of the requested rate and the
  minimum of the tier: 0 above 50, 12 above 30, 16 above 10. The decision is returned
  when the installment at the corrected rate is computed without an exception, which is
  passed on otherwise. A score of at most 10 is rejected with the requested rate and
  installment 0.
\<close>

theorem tiered_decision:
  assumes "dec_div default_context (monthly_salary c) 2 = Inr salary_limit"
    and "\<not> salary_limit < total_current_emi c"
  shows "eligibility_for_score c score loan_amount' requested_rate tenure' =
           (if 10 < score then
              (let corrected_rate =
                     (if 50 < score then max requested_rate 0
                      else if 30 < score then max requested_rate 12
                      else max requested_rate 16)
               in case calculate_monthly_installment loan_amount' corrected_rate tenure' of
                    Inl e \<Rightarrow> Inl e
                  | Inr emi \<Rightarrow>
                      Inr \<lparr>approval = True, interest_rate = Some requested_rate,
                           corrected_interest_rate = corrected_rate,
                           tenure_key = Some tenure', monthly_installment = emi,
                           credit_score = score, message = ''Loan approved.''\<rparr>)
            else
              Inr \<lparr>approval = False, interest_rate = Some requested_rate,
                   corrected_interest_rate = requested_rate,
                   tenure_key = Some tenure', monthly_installment = 0,
                   credit_score = score,
                   message = ''Credit score too low for loan approval.''\<rparr>)"
  using assms
  by (auto simp add: eligibility_for_score_def Let_def max_def
      MIN_INTEREST_RATES_tier_2_def MIN_INTEREST_RATES_tier_3_def split: sum.splits)

theorem tiered_decision_witness:
  "dec_div default_context 50000 2 = Inr 25000 \<and> \<not> (25000::rat) < 0 \<and>
   eligibility_for_score
     \<lparr>monthly_salary = 50000, approved_limit = 1800000, current_debt = 0,
      total_current_emi = 0\<rparr> 40 100000 10 12 =
     Inr \<lparr>approval = True, interest_rate = Some 10, corrected_interest_rate = 12,
          tenure_key = Some 12, monthly_installment = 888488 / 100, credit_score = 40,
          message = ''Loan approved.''\<rparr>"
proof -
  have h: "dec_div default_context 50000 2 = Inr 25000"
    by code_simp
  have i: "calculate_monthly_installment 100000 12 12 = Inr (888488 / 100)"
    by code_simp
  show ?thesis
    using h i tiered_decision
      [of "\<lparr>monthly_salary = 50000, approved_limit = 1800000, current_debt = 0,
            total_current_emi = 0\<rparr>" 25000 40 100000 10 12]
    by simp
qed


text \<open>
  The claim states the corrected rate of a score above 50 to be the requested rate. The
  minimum of that tier is \<open>Decimal(0)\<close>, not absent: a negative requested rate is raised
  to 0.
\<close>

theorem negative_rate_counterexample:
  "eligibility_for_score
     \<lparr>monthly_salary = 50000, approved_limit = 1800000, current_debt = 0,
      total_current_emi = 0\<rparr> 60 100000 (- 1) 12 =
     Inr \<lparr>approval = True, interest_rate = Some (- 1), corrected_interest_rate = 0,
          tenure_key = Some 12, monthly_installment = 833333 / 100, credit_score = 60,
          message = ''Loan approved.''\<rparr>
   \<and> (0::rat) \<noteq> - 1"
  by code_simp

subsection \<open>The range of the score\<close>

text \<open>
  The loop keeps the count of installments paid and the count of closed loans at 0 or
  above when no loan has a negative count of installments paid; then every component of
  the score is at least 0.
\<close>

lemma binary64_nonneg: "0 \<le> x \<Longrightarrow> 0 \<le> binary64 x"
  by (simp add: binary64_def round_sig_nonneg)

lemma recent_default_cases:
  "recent_default today l = Inr True \<or> recent_default today l = Inr False"
  by (auto simp add: recent_default_def py_truediv_def Let_def)

lemma scan_loan_invariant:
  assumes "scan_loan today t l = Inr t'"
    and "0 \<le> total_emis_paid t" and "0 \<le> total_closed_loans t"
    and "0 \<le> emis_paid_on_time l"
  shows "0 \<le> total_emis_paid t' \<and> 0 \<le> total_closed_loans t'"
  using assms recent_default_cases [of today l]
  by (auto simp add: scan_loan_def Let_def split: if_splits)

lemma scan_loans_invariant:
  assumes "scan_loans today t ls = Inr t'"
    and "0 \<le> total_emis_paid t" and "0 \<le> total_closed_loans t"
    and "\<forall>l \<in> set ls. 0 \<le> emis_paid_on_time l"
  shows "0 \<le> total_emis_paid t' \<and> 0 \<le> total_closed_loans t'"
  using assms
proof (induction ls arbitrary: t)
  case Nil
  then show ?case by simp
next
  case (Cons l ls)
  obtain t1 where t1: "scan_loan today t l = Inr t1"
    using scan_loan_returns by blast
  have "0 \<le> total_emis_paid t1 \<and> 0 \<le> total_closed_loans t1"
    using scan_loan_invariant [OF t1] Cons.prems by simp
  moreover have "scan_loans today t1 ls = Inr t'"
    using Cons.prems(1) t1 by simp
  ultimately show ?case
    using Cons.IH [of t1] Cons.prems(4) by simp
qed

lemma score_from_totals_range:
  assumes "0 \<le> total_emis_paid t" and "0 \<le> total_closed_loans t"
  shows "\<exists>s. score_from_totals t = Inr s \<and> 0 \<le> s \<and> s \<le> 100"
proof -
  have ratio: "0 \<le> py_round (float_mul 40 (binary64 (of_int (total_emis_paid t) / of_int (total_emis_due t))))"
    if "0 < total_emis_due t"
  proof -
    have "(0::rat) \<le> of_int (total_emis_paid t) / of_int (total_emis_due t)"
      using assms(1) that by simp
    then have "0 \<le> binary64 (of_int (total_emis_paid t) / of_int (total_emis_due t))"
      by (rule binary64_nonneg)
    then have "0 \<le> float_mul 40 (binary64 (of_int (total_emis_paid t) / of_int (total_emis_due t)))"
      by (simp add: float_mul_def binary64_nonneg)
    then show ?thesis
      by (simp add: py_round_def round_half_even_nonneg)
  qed
  show ?thesis
    using assms(2) ratio
    by (auto simp add: score_from_totals_def py_truediv_def Let_def
        SCORE_WEIGHTS_limit_check_def SCORE_WEIGHTS_on_time_payment_def
        SCORE_WEIGHTS_loan_volume_def SCORE_WEIGHTS_approved_volume_def
        SCORE_WEIGHTS_activity_def)
qed


text \<open>
  Claim C4. For loans with a count of installments paid between 0 and the tenure and a
  positive amount, and a customer with a debt of at least 0, \<open>calculate_credit_score\<close>
  returns an integer between 0 and 100.
\<close>

theorem score_range:
  assumes "\<forall>l \<in> set all_loans.
             0 \<le> emis_paid_on_time l \<and> emis_paid_on_time l \<le> tenure l \<and> 0 < loan_amount l"
    and "0 \<le> current_debt c"
  shows "\<exists>s. calculate_credit_score today c all_loans requested_loan_amount = Inr s
             \<and> 0 \<le> s \<and> s \<le> 100"
proof (cases "of_int (approved_limit c)
                < dec_add default_context (current_debt c) requested_loan_amount")
  case True
  then show ?thesis by (simp add: calculate_credit_score_def)
next
  case False
  obtain t where t: "scan_loans today initial_totals all_loans = Inr t"
    using scan_loans_returns by blast
  have "0 \<le> total_emis_paid t \<and> 0 \<le> total_closed_loans t"
    using scan_loans_invariant [OF t] assms(1) by (simp add: initial_totals_def)
  then show ?thesis
    using score_from_totals_range [of t] False t
    by (simp add: calculate_credit_score_def)
qed

theorem score_range_witness:
  "0 \<le> emis_paid_on_time
          \<lparr>loan_amount = 100000, tenure = 12, emis_paid_on_time = 3,
           start_date = \<lparr>year = 2024, month = 1, day = 1\<rparr>,
           end_date = \<lparr>year = 2025, month = 1, day = 1\<rparr>\<rparr>
   \<and> (3::int) \<le> 12 \<and> (0::rat) < 100000
   \<and> (\<exists>s. calculate_credit_score \<lparr>year = 2024, month = 6, day = 15\<rparr>
            \<lparr>monthly_salary = 50000, approved_limit = 1800000, current_debt = 0,
             total_current_emi = 0\<rparr>
            [\<lparr>loan_amount = 100000, tenure = 12, emis_paid_on_time = 3,
              start_date = \<lparr>year = 2024, month = 1, day = 1\<rparr>,
              end_date = \<lparr>year = 2025, month = 1, day = 1\<rparr>\<rparr>] 100000 = Inr s
          \<and> 0 \<le> s \<and> s \<le> 100)"
  using score_range
    [of "[\<lparr>loan_amount = 100000, tenure = 12, emis_paid_on_time = 3,
           start_date = \<lparr>year = 2024, month = 1, day = 1\<rparr>,
           end_date = \<lparr>year = 2025, month = 1, day = 1\<rparr>\<rparr>]"
        "\<lparr>monthly_salary = 50000, approved_limit = 1800000, current_debt = 0,
          total_current_emi = 0\<rparr>"
        "\<lparr>year = 2024, month = 6, day = 15\<rparr>" 100000]
  by simp

end
